theory Spec2Isabelle
  imports Main
begin

section \<open>Strings\<close>

text \<open>
  A Python \<open>str\<close> is modelled as a \<open>string\<close>: each \<open>char\<close> stands for one code point
  in the range U+0000 to U+00FF. On that range the whitespace class of a \<open>str\<close> pattern
  and of \<open>str.strip()\<close> (both are \<open>str.isspace\<close>) holds the twelve code points below, and
  the digit class of a pattern holds the ten ASCII digits.
\<close>

definition whitespace :: "char list" where
  "whitespace = [CHR 0x09, CHR 0x0A, CHR 0x0B, CHR 0x0C, CHR 0x0D,
                 CHR 0x1C, CHR 0x1D, CHR 0x1E, CHR 0x1F, CHR 0x20, CHR 0x85, CHR 0xA0]"

definition isspace :: "char \<Rightarrow> bool" where
  "isspace c \<longleftrightarrow> c \<in> set whitespace"

definition isdigit :: "char \<Rightarrow> bool" where
  "isdigit c \<longleftrightarrow> c \<in> set ''0123456789''"

text \<open>\<open>s.strip()\<close>: leading and trailing whitespace removed.\<close>

definition strip :: "string \<Rightarrow> string" where
  "strip s = rev (dropWhile isspace (rev (dropWhile isspace s)))"

text \<open>\<open>str(n)\<close> for an integer, as the f-strings of the handler render it.\<close>

fun str_nat :: "nat \<Rightarrow> string" where
  "str_nat n = (if n < 10 then [''0123456789'' ! n]
                else str_nat (n div 10) @ [''0123456789'' ! (n mod 10)])"

declare str_nat.simps [simp del]

definition str_int :: "int \<Rightarrow> string" where
  "str_int i = (if i < 0 then CHR ''-'' # str_nat (nat (- i)) else str_nat (nat i))"

text \<open>
  An exception. \<open>Exception msg\<close> is an instance of the class \<open>Exception\<close> with
  \<open>str(e) = msg\<close>: what \<open>except Exception\<close> catches. \<open>BaseException name\<close> is an
  exception outside that class, which only a bare \<open>except\<close> catches: the cancellation
  of the task at an \<open>await\<close> (\<open>asyncio.CancelledError\<close>), \<open>KeyboardInterrupt\<close>,
  \<open>SystemExit\<close>.
\<close>

datatype exn = Exception string | BaseException string

text \<open>\<open>isinstance(e, Exception)\<close>.\<close>

fun catchable :: "exn \<Rightarrow> bool" where
  "catchable (Exception msg) = True"
| "catchable (BaseException name) = False"

text \<open>
  \<open>int(ds)\<close> on a run of decimal digits. Python integers are unbounded, but the
  conversion of a string of more than 4300 digits (the default of
  \<open>sys.get_int_max_str_digits()\<close>; leading zeros count) raises \<open>ValueError\<close>.
\<close>

definition digit_value :: "char \<Rightarrow> int" where
  "digit_value c = int (of_char c) - 48"

definition digits_value :: "string \<Rightarrow> int" where
  "digits_value ds = foldl (\<lambda>a c. 10 * a + digit_value c) 0 ds"

definition int_max_str_digits :: nat where
  "int_max_str_digits = 4300"

definition int_limit_text :: "nat \<Rightarrow> string" where
  "int_limit_text k =
     ''Exceeds the limit (4300 digits) for integer string conversion: value has ''
       @ str_nat k @ '' digits; use sys.set_int_max_str_digits() to increase the limit''"

definition int_of_digits :: "string \<Rightarrow> exn + int" where
  "int_of_digits ds =
     (if length ds > int_max_str_digits then Inl (Exception (int_limit_text (length ds)))
      else Inr (digits_value ds))"

text \<open>\<open>s.replace(" ", "_")\<close>.\<close>

definition replace_space :: "string \<Rightarrow> string" where
  "replace_space s = map (\<lambda>c. if c = CHR '' '' then CHR ''_'' else c) s"

section \<open>The count directive\<close>

text \<open>
  The pattern of the handler is the literal \<open>--number_of_images\<close>, any run of
  whitespace, one \<open>=\<close>, any run of whitespace and, as group 1, a run of one or more
  digits. Its pieces match pairwise disjoint sets of characters, so a greedy match never
  backtracks: after the literal all whitespace is consumed, then the \<open>=\<close>, then all
  whitespace, then the longest run of digits, which must not be empty.
\<close>

definition flag :: string where
  "flag = ''--number_of_images''"

fun strip_prefix :: "string \<Rightarrow> string \<Rightarrow> string option" where
  "strip_prefix [] s = Some s"
| "strip_prefix (p # ps) [] = None"
| "strip_prefix (p # ps) (c # cs) = (if p = c then strip_prefix ps cs else None)"

text \<open>
  \<open>match_directive s\<close> matches the pattern at the start of \<open>s\<close>: the result is group 1
  (the digits) and the text after the match.
\<close>

definition match_directive :: "string \<Rightarrow> (string \<times> string) option" where
  "match_directive s =
     (case strip_prefix flag s of
        None \<Rightarrow> None
      | Some r0 \<Rightarrow>
          (case dropWhile isspace r0 of
             [] \<Rightarrow> None
           | c # r1 \<Rightarrow>
               if c = CHR ''='' then
                 (let r2 = dropWhile isspace r1 in
                  if takeWhile isdigit r2 = [] then None
                  else Some (takeWhile isdigit r2, dropWhile isdigit r2))
               else None))"

text \<open>\<open>re.search\<close>: group 1 of the leftmost match.\<close>

fun re_search :: "string \<Rightarrow> string option" where
  "re_search [] = None"
| "re_search (c # cs) =
     (case match_directive (c # cs) of
        Some (ds, rest) \<Rightarrow> Some ds
      | None \<Rightarrow> re_search cs)"

lemma strip_prefix_length:
  "strip_prefix p s = Some r \<Longrightarrow> length s = length p + length r"
  by (induction p s rule: strip_prefix.induct) (auto split: if_splits)

lemma match_directive_shorter:
  assumes "match_directive s = Some (ds, rest)"
  shows "length rest < length s"
proof -
  from assms obtain r0 c r1 where r0: "strip_prefix flag s = Some r0"
    and r1: "dropWhile isspace r0 = c # r1"
    and rest: "rest = dropWhile isdigit (dropWhile isspace r1)"
    by (auto simp: match_directive_def Let_def split: option.splits list.splits if_splits)
  have "length rest \<le> length r1"
    unfolding rest by (meson length_dropWhile_le le_trans)
  moreover have "length (c # r1) \<le> length r0"
    using length_dropWhile_le [of isspace r0] by (simp add: r1)
  moreover have "length r0 \<le> length s"
    using strip_prefix_length [OF r0] by simp
  ultimately show ?thesis by simp
qed

text \<open>
  \<open>re.sub\<close> with the empty replacement: one scan from the left; a match is dropped and
  the scan goes on after it, any other character is kept.
\<close>

function re_sub :: "string \<Rightarrow> string" where
  "re_sub [] = []"
| "re_sub (c # cs) =
     (case match_directive (c # cs) of
        Some (ds, rest) \<Rightarrow> re_sub rest
      | None \<Rightarrow> c # re_sub cs)"
  by pat_completeness auto
termination
  by (relation "measure length") (auto dest: match_directive_shorter)

text \<open>
  Lines 63 to 80 of the handler: the default count, the search, the conversion of
  group 1 (which can raise), the clamping of the number read, and the removal of the
  directive followed by \<open>strip()\<close>. Without a match the prompt is left as it is.
\<close>

definition parse_directive :: "string \<Rightarrow> exn + string \<times> int" where
  "parse_directive last_message =
     (case re_search last_message of
        None \<Rightarrow> Inr (last_message, 1)
      | Some g \<Rightarrow>
          (case int_of_digits g of
             Inl e \<Rightarrow> Inl e
           | Inr n \<Rightarrow>
               (let number_of_images = (if n \<le> 0 then 1 else if n > 4 then 4 else n)
                in Inr (strip (re_sub last_message), number_of_images))))"

section \<open>The request, the collaborators and the observable events\<close>

type_synonym bytes = "nat list"

text \<open>A chat turn and the request: only \<open>content\<close> and \<open>message_id\<close> are read.\<close>

record protocol_message =
  content :: string

record query_request =
  query :: "protocol_message list"
  message_id :: string

text \<open>
  A generated image: \<open>pil_image\<close> is \<open>None\<close> when the object has no \<open>_pil_image\<close>
  attribute; otherwise it holds what saving the picture as JPEG gives, the encoded bytes
  or the exception raised.
\<close>

record generated_image =
  pil_image :: "(exn + bytes) option"

text \<open>
  The collaborators. The generation capability is called once, with the prompt and the
  count. The other calls happen once per image at most, so their outcome is given by the
  index of the image in the batch: the random name, whether the upload raises, the
  signed URL or the exception of the signing, whether posting the attachment raises.
\<close>

record env =
  generate_images :: "string \<Rightarrow> int \<Rightarrow> exn + generated_image list"
  generate_random_string :: "nat \<Rightarrow> string"
  upload_from_file :: "nat \<Rightarrow> exn option"
  generate_signed_url :: "nat \<Rightarrow> exn + string"
  post_message_attachment :: "nat \<Rightarrow> exn option"

text \<open>
  What a run of the handler does to the outside, in order: the calls to the
  collaborators with their arguments (the language and the aspect ratio of the
  generation call are constants and left out), and the partial responses it yields.
\<close>

datatype event =
    GenerateImages string int
  | UploadFromFile string bytes
  | GenerateSignedUrl string
  | PostMessageAttachment string bytes string
  | Yield string

text \<open>
  A run: the events so far, and the exception that ended it, if one did. The runs are
  those in which the transport takes every response: nothing is thrown into the
  generator at a \<open>yield\<close>.
\<close>

type_synonym run = "event list \<times> exn option"

definition then_run :: "run \<Rightarrow> run \<Rightarrow> run" where
  "then_run r k = (case snd r of None \<Rightarrow> (fst r @ fst k, snd k) | Some e \<Rightarrow> r)"

section \<open>The handler of GCS/imagen\_bot\_poe.py\<close>

definition image_filename :: "string \<Rightarrow> nat \<Rightarrow> string" where
  "image_filename last_message index =
     replace_space (take 10 last_message) @ ''_image_'' @ str_int (int index + 1) @ ''.jpg''"

definition markdown_image :: "string \<Rightarrow> string \<Rightarrow> string" where
  "markdown_image filename signed_url =
     ''![Generated Image_'' @ filename @ ''](''  @ signed_url @ '')''"

definition summary_text :: "int \<Rightarrow> string \<Rightarrow> string" where
  "summary_text number_of_images last_message =
     str_int number_of_images @ '' image(s) generated by Imagen3 attached for ''
       @ [CHR 0x22] @ last_message @ [CHR 0x22] @ ''.''"

text \<open>
  The \<open>try\<close> block of the loop body (lines 151 to 166): upload, sign, yield the
  markdown link.
\<close>

definition try_publish :: "env \<Rightarrow> nat \<Rightarrow> string \<Rightarrow> bytes \<Rightarrow> string \<Rightarrow> run" where
  "try_publish env index random_filename image_bytes filename =
     (case upload_from_file env index of
        Some e \<Rightarrow> ([UploadFromFile random_filename image_bytes], Some e)
      | None \<Rightarrow>
          (case generate_signed_url env index of
             Inl e \<Rightarrow>
               ([UploadFromFile random_filename image_bytes,
                 GenerateSignedUrl random_filename], Some e)
           | Inr signed_url \<Rightarrow>
               ([UploadFromFile random_filename image_bytes,
                 GenerateSignedUrl random_filename,
                 Yield (markdown_image filename signed_url)], None)))"

text \<open>
  The bare \<open>except\<close> block of the loop body (lines 168 to 177), entered on any
  exception of the \<open>try\<close> block, of either kind: post the attachment, then yield the
  summary text. An exception of the posting is not caught here.
\<close>

definition attach_fallback ::
  "env \<Rightarrow> query_request \<Rightarrow> string \<Rightarrow> int \<Rightarrow> nat \<Rightarrow> bytes \<Rightarrow> string \<Rightarrow> run" where
  "attach_fallback env request last_message number_of_images index image_bytes filename =
     (case post_message_attachment env index of
        Some e \<Rightarrow> ([PostMessageAttachment (message_id request) image_bytes filename], Some e)
      | None \<Rightarrow>
          ([PostMessageAttachment (message_id request) image_bytes filename,
            Yield (summary_text number_of_images last_message)], None))"

definition publish_image ::
  "env \<Rightarrow> query_request \<Rightarrow> string \<Rightarrow> int \<Rightarrow> nat \<Rightarrow> bytes \<Rightarrow> run" where
  "publish_image env request last_message number_of_images index image_bytes =
     (let filename = image_filename last_message index;
          random_filename = generate_random_string env index @ ''.jpg''
      in case try_publish env index random_filename image_bytes filename of
           (es, None) \<Rightarrow> (es, None)
         | (es, Some e) \<Rightarrow>
             then_run (es, None)
               (attach_fallback env request last_message number_of_images index
                  image_bytes filename))"

text \<open>
  The \<open>for\<close> loop over \<open>enumerate(images)\<close> (lines 132 to 177), from the image at
  \<open>index\<close> on: an object without pixel data is skipped, an exception of the JPEG
  encoding ends the loop.
\<close>

fun publish_images ::
  "env \<Rightarrow> query_request \<Rightarrow> string \<Rightarrow> int \<Rightarrow> nat \<Rightarrow> generated_image list \<Rightarrow> run" where
  "publish_images env request last_message number_of_images index [] = ([], None)"
| "publish_images env request last_message number_of_images index (img_obj # rest) =
     (case pil_image img_obj of
        None \<Rightarrow> publish_images env request last_message number_of_images (Suc index) rest
      | Some (Inl e) \<Rightarrow> ([], Some e)
      | Some (Inr image_bytes) \<Rightarrow>
          then_run
            (publish_image env request last_message number_of_images index image_bytes)
            (publish_images env request last_message number_of_images (Suc index) rest))"

text \<open>
  \<open>request.query[-1].content\<close>: indexing an empty list raises \<open>IndexError\<close>, whose
  text is \<open>list index out of range\<close>.
\<close>

definition last_message_content :: "query_request \<Rightarrow> exn + string" where
  "last_message_content request =
     (if query request = [] then Inl (Exception ''list index out of range'')
      else Inr (content (last (query request))))"

definition no_images_text :: string where
  "no_images_text =
     ''No images were generated. Please modify your prompt or try again later.''"

text \<open>
  The body of the outer \<open>try\<close> from the parsing of the directive on, for a prompt that
  is not empty.
\<close>

definition generate_and_publish :: "env \<Rightarrow> query_request \<Rightarrow> string \<Rightarrow> run" where
  "generate_and_publish env request prompt =
     (case parse_directive prompt of
        Inl e \<Rightarrow> ([], Some e)
      | Inr (last_message, number_of_images) \<Rightarrow>
          (case generate_images env last_message number_of_images of
             Inl e \<Rightarrow> ([GenerateImages last_message number_of_images], Some e)
           | Inr images \<Rightarrow>
               if length images = 0 then
                 ([GenerateImages last_message number_of_images, Yield no_images_text],
                  None)
               else
                 then_run ([GenerateImages last_message number_of_images], None)
                   (publish_images env request last_message number_of_images 0 images)))"

text \<open>The body of the outer \<open>try\<close>.\<close>

definition get_response_body :: "env \<Rightarrow> query_request \<Rightarrow> run" where
  "get_response_body env request =
     (case last_message_content request of
        Inl e \<Rightarrow> ([], Some e)
      | Inr last_message \<Rightarrow>
          if last_message = [] then ([Yield ''Prompt is required''], None)
          else generate_and_publish env request last_message)"

text \<open>
  The handler: \<open>except Exception as e\<close> around the body yields the error text; an
  exception outside the class \<open>Exception\<close> passes through. The second component of the
  result is the exception that leaves the handler, if any.
\<close>

definition get_response :: "env \<Rightarrow> query_request \<Rightarrow> run" where
  "get_response env request =
     (case get_response_body env request of
        (es, None) \<Rightarrow> (es, None)
      | (es, Some (Exception msg)) \<Rightarrow> (es @ [Yield (''Error: '' @ msg)], None)
      | (es, Some (BaseException name)) \<Rightarrow> (es, Some (BaseException name)))"

section \<open>The handler of out\_gcp/imagne3\_peo\_test.py\<close>

text \<open>
  The same handler without the storage path: every image with pixel data is posted as
  an attachment (lines 89 to 110), and the summary is yielded once, after the loop
  (line 113).
\<close>

fun attach_images ::
  "env \<Rightarrow> query_request \<Rightarrow> string \<Rightarrow> nat \<Rightarrow> generated_image list \<Rightarrow> run" where
  "attach_images env request last_message index [] = ([], None)"
| "attach_images env request last_message index (img_obj # rest) =
     (case pil_image img_obj of
        None \<Rightarrow> attach_images env request last_message (Suc index) rest
      | Some (Inl e) \<Rightarrow> ([], Some e)
      | Some (Inr image_bytes) \<Rightarrow>
          (case post_message_attachment env index of
             Some e \<Rightarrow>
               ([PostMessageAttachment (message_id request) image_bytes
                   (image_filename last_message index)], Some e)
           | None \<Rightarrow>
               then_run
                 ([PostMessageAttachment (message_id request) image_bytes
                     (image_filename last_message index)], None)
                 (attach_images env request last_message (Suc index) rest)))"

definition generate_and_attach :: "env \<Rightarrow> query_request \<Rightarrow> string \<Rightarrow> run" where
  "generate_and_attach env request prompt =
     (case parse_directive prompt of
        Inl e \<Rightarrow> ([], Some e)
      | Inr (last_message, number_of_images) \<Rightarrow>
          (case generate_images env last_message number_of_images of
             Inl e \<Rightarrow> ([GenerateImages last_message number_of_images], Some e)
           | Inr images \<Rightarrow>
               if length images = 0 then
                 ([GenerateImages last_message number_of_images, Yield no_images_text],
                  None)
               else
                 then_run ([GenerateImages last_message number_of_images], None)
                   (then_run (attach_images env request last_message 0 images)
                      ([Yield (summary_text number_of_images last_message)], None))))"

definition get_response_body_out_gcp :: "env \<Rightarrow> query_request \<Rightarrow> run" where
  "get_response_body_out_gcp env request =
     (case last_message_content request of
        Inl e \<Rightarrow> ([], Some e)
      | Inr last_message \<Rightarrow>
          if last_message = [] then ([Yield ''Prompt is required''], None)
          else generate_and_attach env request last_message)"

definition get_response_out_gcp :: "env \<Rightarrow> query_request \<Rightarrow> run" where
  "get_response_out_gcp env request =
     (case get_response_body_out_gcp env request of
        (es, None) \<Rightarrow> (es, None)
      | (es, Some (Exception msg)) \<Rightarrow> (es @ [Yield (''Error: '' @ msg)], None)
      | (es, Some (BaseException name)) \<Rightarrow> (es, Some (BaseException name)))"

section \<open>Reading a run\<close>

text \<open>The texts yielded, the attachments posted and the generation calls of a run.\<close>

fun response_texts :: "event list \<Rightarrow> string list" where
  "response_texts [] = []"
| "response_texts (Yield t # es) = t # response_texts es"
| "response_texts (e # es) = response_texts es"

fun attachments :: "event list \<Rightarrow> (bytes \<times> string) list" where
  "attachments [] = []"
| "attachments (PostMessageAttachment mid b f # es) = (b, f) # attachments es"
| "attachments (e # es) = attachments es"

fun generation_calls :: "event list \<Rightarrow> (string \<times> int) list" where
  "generation_calls [] = []"
| "generation_calls (GenerateImages p n # es) = (p, n) # generation_calls es"
| "generation_calls (e # es) = generation_calls es"

section \<open>Prompts with separated directives\<close>

text \<open>
  \<open>double_hyphen s\<close>: the text \<open>s\<close> contains two hyphens in a row, the start of the
  flag. A prompt is \<open>separated\<close> when it is made of directives and of plain text, where
  plain text contains no two hyphens in a row and, in front of a directive, does not end
  with a hyphen.
\<close>

fun double_hyphen :: "string \<Rightarrow> bool" where
  "double_hyphen (a # b # cs) = ((a = CHR ''-'' \<and> b = CHR ''-'') \<or> double_hyphen (b # cs))"
| "double_hyphen [a] = False"
| "double_hyphen [] = False"

inductive separated :: "string \<Rightarrow> bool" where
  plain: "\<not> double_hyphen t \<Longrightarrow> separated t"
| directive:
    "\<not> double_hyphen (t @ ''-'') \<Longrightarrow>
     \<forall>c\<in>set ws1. isspace c \<Longrightarrow> \<forall>c\<in>set ws2. isspace c \<Longrightarrow>
     ds \<noteq> [] \<Longrightarrow> \<forall>c\<in>set ds. isdigit c \<Longrightarrow> separated r \<Longrightarrow>
     separated (t @ flag @ ws1 @ ''='' @ ws2 @ ds @ r)"

section \<open>Sample inputs\<close>

text \<open>
  A request with an earlier turn and the prompt as its last turn, a generation
  capability that returns two images with pixel data, a storage that accepts every
  upload and signs a URL per key, and a transport that accepts every attachment; then
  variations of that: every upload refused, a single image without pixel data, a
  generation call that raises, every upload refused and the task cancelled while the
  attachment is posted, a storage that signs the same URL for every key, and a
  generation that returns no image.
\<close>

definition sample_request :: "string \<Rightarrow> query_request" where
  "sample_request p =
     \<lparr>query = [\<lparr>content = ''hello''\<rparr>, \<lparr>content = p\<rparr>], message_id = ''m1''\<rparr>"

definition two_images :: "generated_image list" where
  "two_images = [\<lparr>pil_image = Some (Inr [255, 216])\<rparr>, \<lparr>pil_image = Some (Inr [255, 217])\<rparr>]"

definition sample_env :: env where
  "sample_env =
     \<lparr>generate_images = (\<lambda>p n. Inr two_images),
      generate_random_string = (\<lambda>i. ''key'' @ str_nat i),
      upload_from_file = (\<lambda>i. None),
      generate_signed_url = (\<lambda>i. Inr (''https://u/'' @ str_nat i)),
      post_message_attachment = (\<lambda>i. None)\<rparr>"

definition env_upload_fails :: env where
  "env_upload_fails = sample_env\<lparr>upload_from_file := (\<lambda>i. Some (Exception ''403 Forbidden''))\<rparr>"

definition env_no_pixels :: env where
  "env_no_pixels = sample_env\<lparr>generate_images := (\<lambda>p n. Inr [\<lparr>pil_image = None\<rparr>])\<rparr>"

definition env_generation_fails :: env where
  "env_generation_fails =
     sample_env\<lparr>generate_images := (\<lambda>p n. Inl (Exception ''429 Quota exceeded''))\<rparr>"

definition env_attachment_cancelled :: env where
  "env_attachment_cancelled =
     env_upload_fails\<lparr>post_message_attachment := (\<lambda>i. Some (BaseException ''CancelledError''))\<rparr>"

definition env_same_url :: env where
  "env_same_url = sample_env\<lparr>generate_signed_url := (\<lambda>i. Inr ''https://u/same'')\<rparr>"

definition env_no_images :: env where
  "env_no_images = sample_env\<lparr>generate_images := (\<lambda>p n. Inr [])\<rparr>"

lemmas string_defs = isspace_def isdigit_def whitespace_def strip_def int_of_digits_def
  digits_value_def int_max_str_digits_def digit_value_def str_int_def str_nat.simps
  replace_space_def flag_def match_directive_def parse_directive_def

lemmas handler_defs = get_response_def get_response_body_def last_message_content_def
  generate_and_publish_def publish_image_def try_publish_def attach_fallback_def
  image_filename_def markdown_image_def summary_text_def no_images_text_def
  get_response_out_gcp_def get_response_body_out_gcp_def generate_and_attach_def
  then_run_def Let_def

lemmas sample_defs = sample_request_def two_images_def sample_env_def
  env_upload_fails_def env_no_pixels_def env_generation_fails_def
  env_attachment_cancelled_def env_same_url_def env_no_images_def

section \<open>The pattern matcher against the language of the pattern\<close>

text \<open>
  \<open>match_directive\<close> succeeds exactly on the texts that the pattern describes, with the
  longest run of digits as group 1; \<open>re_search\<close> reports the leftmost position where it
  succeeds.
\<close>

lemma strip_prefix_Some_iff: "strip_prefix p s = Some r \<longleftrightarrow> s = p @ r"
  by (induction p s rule: strip_prefix.induct) auto

lemma eq_not_space: "\<not> isspace (CHR ''='')"
  by (simp add: isspace_def whitespace_def)

lemma digit_not_space: "isdigit c \<Longrightarrow> \<not> isspace c"
  by (auto simp: isdigit_def isspace_def whitespace_def)

lemma takeWhile_run:
  assumes "\<forall>c\<in>set xs. P c" and "ys = [] \<or> \<not> P (hd ys)"
  shows "takeWhile P (xs @ ys) = xs" and "dropWhile P (xs @ ys) = ys"
proof -
  have t: "takeWhile P ys = []" and d: "dropWhile P ys = ys"
    using assms(2) by (cases ys; simp)+
  show "takeWhile P (xs @ ys) = xs"
    using assms(1) t by (simp add: takeWhile_append2)
  show "dropWhile P (xs @ ys) = ys"
    using assms(1) d by (simp add: dropWhile_append2)
qed

lemma dropWhile_stop: "dropWhile P xs = [] \<or> \<not> P (hd (dropWhile P xs))"
  using hd_dropWhile [of P xs] by blast

lemma match_directive_iff:
  "match_directive s = Some (ds, rest) \<longleftrightarrow>
     (\<exists>ws1 ws2. s = flag @ ws1 @ ''='' @ ws2 @ ds @ rest
        \<and> (\<forall>c\<in>set ws1. isspace c) \<and> (\<forall>c\<in>set ws2. isspace c)
        \<and> ds \<noteq> [] \<and> (\<forall>c\<in>set ds. isdigit c)
        \<and> (rest = [] \<or> \<not> isdigit (hd rest)))"
  (is "?L \<longleftrightarrow> ?R")
proof
  assume ?L
  then obtain r0 r1 where r0: "s = flag @ r0"
    and r1: "dropWhile isspace r0 = CHR ''='' # r1"
    and ds: "ds = takeWhile isdigit (dropWhile isspace r1)" "ds \<noteq> []"
    and rest: "rest = dropWhile isdigit (dropWhile isspace r1)"
    by (auto simp: match_directive_def Let_def strip_prefix_Some_iff
        split: option.splits list.splits if_splits)
  let ?ws1 = "takeWhile isspace r0" and ?ws2 = "takeWhile isspace r1"
  have "r0 = ?ws1 @ dropWhile isspace r0" by simp
  also have "\<dots> = ?ws1 @ ''='' @ r1" by (simp add: r1)
  also have "r1 = ?ws2 @ dropWhile isspace r1" by simp
  also have "dropWhile isspace r1 = ds @ rest" by (simp add: ds rest)
  finally have "s = flag @ ?ws1 @ ''='' @ ?ws2 @ ds @ rest" by (simp add: r0)
  moreover have "\<forall>c\<in>set ?ws1. isspace c" "\<forall>c\<in>set ?ws2. isspace c"
    by (auto dest: set_takeWhileD)
  moreover have "\<forall>c\<in>set ds. isdigit c"
    unfolding ds by (auto dest: set_takeWhileD)
  moreover have "rest = [] \<or> \<not> isdigit (hd rest)"
    unfolding rest by (rule dropWhile_stop)
  ultimately show ?R using ds(2) by blast
next
  assume ?R
  then obtain ws1 ws2 where s: "s = flag @ ws1 @ ''='' @ ws2 @ ds @ rest"
    and ws1: "\<forall>c\<in>set ws1. isspace c" and ws2: "\<forall>c\<in>set ws2. isspace c"
    and ds: "ds \<noteq> []" "\<forall>c\<in>set ds. isdigit c"
    and rest: "rest = [] \<or> \<not> isdigit (hd rest)"
    by blast
  have p: "strip_prefix flag s = Some (ws1 @ ''='' @ ws2 @ ds @ rest)"
    by (simp add: strip_prefix_Some_iff s)
  have d1: "dropWhile isspace (ws1 @ ''='' @ ws2 @ ds @ rest) = ''='' @ ws2 @ ds @ rest"
    by (rule takeWhile_run(2) [OF ws1]) (simp add: eq_not_space)
  have "ds @ rest = [] \<or> \<not> isspace (hd (ds @ rest))"
    using ds by (cases ds) (auto dest: digit_not_space)
  then have d2: "dropWhile isspace (ws2 @ ds @ rest) = ds @ rest"
    by (rule takeWhile_run(2) [OF ws2])
  have t: "takeWhile isdigit (ds @ rest) = ds" "dropWhile isdigit (ds @ rest) = rest"
    using takeWhile_run [OF ds(2) rest] by simp_all
  show ?L
    using ds(1) p d1 d2 t by (simp add: match_directive_def)
qed

lemma match_directive_extend:
  assumes "match_directive u = Some (d, r)" and "r \<noteq> [] \<or> v = [] \<or> \<not> isdigit (hd v)"
  shows "match_directive (u @ v) = Some (d, r @ v)"
proof -
  from assms(1) obtain ws1 ws2 where u: "u = flag @ ws1 @ ''='' @ ws2 @ d @ r"
    and w: "\<forall>c\<in>set ws1. isspace c" "\<forall>c\<in>set ws2. isspace c"
      "d \<noteq> []" "\<forall>c\<in>set d. isdigit c"
    and r: "r = [] \<or> \<not> isdigit (hd r)"
    unfolding match_directive_iff by blast
  have "r @ v = [] \<or> \<not> isdigit (hd (r @ v))"
    using r assms(2) by (cases r) auto
  moreover have "u @ v = flag @ ws1 @ ''='' @ ws2 @ d @ (r @ v)"
    by (simp add: u)
  ultimately show ?thesis
    unfolding match_directive_iff using w by blast
qed

lemma flag_hd_not_digit: "\<not> isdigit (hd (flag @ t))"
  by (simp add: flag_def isdigit_def)

lemma match_directive_hd:
  "match_directive (c # cs) = Some x \<Longrightarrow> c = CHR ''-''"
  by (auto simp: match_directive_def flag_def split: option.splits if_splits)

lemma re_search_Cons_None:
  "re_search (c # cs) = None \<longleftrightarrow> match_directive (c # cs) = None \<and> re_search cs = None"
  by (auto split: option.splits)

lemma re_search_None_iff:
  "re_search s = None \<longleftrightarrow> (\<forall>i<length s. match_directive (drop i s) = None)"
proof (induction s)
  case Nil
  show ?case by simp
next
  case (Cons c cs)
  have "(\<forall>i<length (c # cs). match_directive (drop i (c # cs)) = None) \<longleftrightarrow>
        match_directive (c # cs) = None \<and> (\<forall>i<length cs. match_directive (drop i cs) = None)"
    by (auto simp: less_Suc_eq_0_disj)
  with Cons show ?case by (simp only: re_search_Cons_None)
qed

lemma re_search_Some_iff:
  "re_search s = Some ds \<longleftrightarrow>
     (\<exists>i<length s. (\<exists>rest. match_directive (drop i s) = Some (ds, rest))
        \<and> (\<forall>j<i. match_directive (drop j s) = None))"
proof (induction s)
  case Nil
  show ?case by simp
next
  case (Cons c cs)
  show ?case
  proof (cases "match_directive (c # cs)")
    case None
    have "(\<exists>i<length (c # cs). (\<exists>rest. match_directive (drop i (c # cs)) = Some (ds, rest))
              \<and> (\<forall>j<i. match_directive (drop j (c # cs)) = None))
      \<longleftrightarrow> (\<exists>i<length cs. (\<exists>rest. match_directive (drop i cs) = Some (ds, rest))
              \<and> (\<forall>j<i. match_directive (drop j cs) = None))"
      (is "?A \<longleftrightarrow> ?B")
    proof
      assume ?A
      then obtain i rest where i: "i < length (c # cs)"
        and m: "match_directive (drop i (c # cs)) = Some (ds, rest)"
        and f: "\<forall>j<i. match_directive (drop j (c # cs)) = None" by blast
      from m None obtain i' where i': "i = Suc i'" by (cases i) auto
      have "\<forall>j<i'. match_directive (drop j cs) = None"
      proof (intro allI impI)
        fix j assume "j < i'"
        then have "Suc j < i" by (simp add: i')
        with f have "match_directive (drop (Suc j) (c # cs)) = None" by blast
        then show "match_directive (drop j cs) = None" by simp
      qed
      with i m i' show ?B by auto
    next
      assume ?B
      then obtain i rest where i: "i < length cs"
        and m: "match_directive (drop i cs) = Some (ds, rest)"
        and f: "\<forall>j<i. match_directive (drop j cs) = None" by blast
      have "\<forall>j<Suc i. match_directive (drop j (c # cs)) = None"
      proof (intro allI impI)
        fix j assume j: "j < Suc i"
        show "match_directive (drop j (c # cs)) = None"
        proof (cases j)
          case 0
          with None show ?thesis by simp
        next
          case (Suc j')
          with j f show ?thesis by simp
        qed
      qed
      moreover have "Suc i < length (c # cs)" using i by simp
      moreover have "match_directive (drop (Suc i) (c # cs)) = Some (ds, rest)"
        using m by simp
      ultimately show ?A by blast
    qed
    with Cons None show ?thesis by simp
  next
    case (Some x)
    obtain g rest where x: "x = (g, rest)" by (cases x)
    have "(\<exists>i<length (c # cs). (\<exists>rest. match_directive (drop i (c # cs)) = Some (ds, rest))
              \<and> (\<forall>j<i. match_directive (drop j (c # cs)) = None)) \<longleftrightarrow> g = ds"
      (is "?A \<longleftrightarrow> _")
    proof
      assume ?A
      then obtain i rest' where m: "match_directive (drop i (c # cs)) = Some (ds, rest')"
        and f: "\<forall>j<i. match_directive (drop j (c # cs)) = None" by blast
      have "i = 0"
      proof (rule ccontr)
        assume "i \<noteq> 0"
        then have "0 < i" by simp
        with f have "match_directive (drop 0 (c # cs)) = None" by blast
        with Some show False by simp
      qed
      with m Some x show "g = ds" by simp
    next
      assume "g = ds"
      then have "match_directive (drop 0 (c # cs)) = Some (ds, rest)"
        using Some x by simp
      then show ?A by (intro exI [of _ 0]) auto
    qed
    with Some x show ?thesis by auto
  qed
qed

lemma re_search_spaces: "\<forall>c\<in>set s. isspace c \<Longrightarrow> re_search s = None"
proof (induction s)
  case Nil
  show ?case by simp
next
  case (Cons c s)
  have "\<not> isspace (CHR ''-'')" by (simp add: isspace_def whitespace_def)
  with Cons.prems have "c \<noteq> CHR ''-''" by auto
  then have "match_directive (c # s) = None"
    using match_directive_hd [of c s] by (cases "match_directive (c # s)") auto
  with Cons show ?case by simp
qed

section \<open>Removing the directive\<close>


lemma match_directive_length:
  assumes "match_directive s = Some (ds, rest)"
  shows "length rest + 20 \<le> length s"
proof -
  from assms obtain ws1 ws2 where s: "s = flag @ ws1 @ ''='' @ ws2 @ ds @ rest" and "ds \<noteq> []"
    unfolding match_directive_iff by blast
  then have "1 \<le> length ds" by (cases ds) simp_all
  moreover have "length flag = 18" by (simp add: flag_def)
  ultimately show ?thesis by (simp add: s)
qed

lemma re_sub_length: "length (re_sub s) \<le> length s"
proof (induction "length s" arbitrary: s rule: less_induct)
  case less
  show ?case
  proof (cases s)
    case Nil
    then show ?thesis by simp
  next
    case (Cons c cs)
    show ?thesis
    proof (cases "match_directive (c # cs)")
      case None
      have "length (re_sub cs) \<le> length cs"
        by (rule less) (simp add: Cons)
      with None Cons show ?thesis by simp
    next
      case (Some x)
      obtain ds rest where x: "x = (ds, rest)" by (cases x)
      have m: "match_directive (c # cs) = Some (ds, rest)"
        using Some x by simp
      have l: "length rest + 20 \<le> length (c # cs)"
        by (rule match_directive_length [OF m])
      have "length (re_sub rest) \<le> length rest"
        by (rule less) (use l Cons in simp)
      with l m Cons show ?thesis by simp
    qed
  qed
qed

lemma re_sub_length_match:
  "re_search s = Some ds \<Longrightarrow> length (re_sub s) + 20 \<le> length s"
proof (induction s)
  case Nil
  then show ?case by simp
next
  case (Cons c cs)
  show ?case
  proof (cases "match_directive (c # cs)")
    case None
    with Cons show ?thesis by simp
  next
    case (Some x)
    obtain g rest where x: "x = (g, rest)" by (cases x)
    have "length rest + 20 \<le> length (c # cs)"
      using match_directive_length Some x by blast
    moreover have "length (re_sub rest) \<le> length rest" by (rule re_sub_length)
    ultimately show ?thesis using Some x by simp
  qed
qed

lemma strip_length: "length (strip s) \<le> length s"
proof -
  have "length (strip s) \<le> length (dropWhile isspace s)"
    unfolding strip_def using length_dropWhile_le [of isspace "rev (dropWhile isspace s)"]
    by simp
  also have "\<dots> \<le> length s" by (rule length_dropWhile_le)
  finally show ?thesis .
qed

lemma re_search_first_match:
  "re_search s = Some ds \<Longrightarrow>
     \<exists>pre ws1 ws2 rest.
        s = pre @ (flag @ ws1 @ ''='' @ ws2 @ ds) @ rest
        \<and> (\<forall>c\<in>set ws1. isspace c) \<and> (\<forall>c\<in>set ws2. isspace c)
        \<and> ds \<noteq> [] \<and> (\<forall>c\<in>set ds. isdigit c)
        \<and> (rest = [] \<or> \<not> isdigit (hd rest))
        \<and> re_search pre = None
        \<and> re_sub s = pre @ re_sub rest"
proof (induction s)
  case Nil
  then show ?case by simp
next
  case (Cons c cs)
  show ?case
  proof (cases "match_directive (c # cs)")
    case None
    with Cons.prems have "re_search cs = Some ds" by simp
    from Cons.IH [OF this] obtain pre ws1 ws2 rest where
      cs: "cs = pre @ (flag @ ws1 @ ''='' @ ws2 @ ds) @ rest"
      and w: "\<forall>c\<in>set ws1. isspace c" "\<forall>c\<in>set ws2. isspace c"
        "ds \<noteq> []" "\<forall>c\<in>set ds. isdigit c" "rest = [] \<or> \<not> isdigit (hd rest)"
      and pre: "re_search pre = None" and sub: "re_sub cs = pre @ re_sub rest"
      by blast
    have "c # cs = (c # pre) @ (flag @ ws1 @ ''='' @ ws2 @ ds) @ rest"
      by (simp add: cs)
    moreover have "re_sub (c # cs) = (c # pre) @ re_sub rest"
      using None sub by simp
    moreover have "re_search (c # pre) = None"
    proof (cases "match_directive (c # pre)")
      case None
      with pre show ?thesis by simp
    next
      case (Some y)
      obtain d r where "y = (d, r)" by (cases y)
      with Some have "match_directive (c # pre) = Some (d, r)" by simp
      then have "match_directive ((c # pre) @ (flag @ (ws1 @ ''='' @ ws2 @ ds) @ rest))
          = Some (d, r @ (flag @ (ws1 @ ''='' @ ws2 @ ds) @ rest))"
        by (rule match_directive_extend) (simp add: flag_hd_not_digit)
      with \<open>match_directive (c # cs) = None\<close> show ?thesis by (simp add: cs)
    qed
    ultimately show ?thesis using w by blast
  next
    case (Some x)
    obtain g rest where x: "x = (g, rest)" by (cases x)
    with Some Cons.prems have g: "g = ds" by simp
    with Some x have m: "match_directive (c # cs) = Some (ds, rest)" by simp
    then obtain ws1 ws2 where
      cs: "c # cs = flag @ ws1 @ ''='' @ ws2 @ ds @ rest"
      and w: "\<forall>c\<in>set ws1. isspace c" "\<forall>c\<in>set ws2. isspace c"
        "ds \<noteq> []" "\<forall>c\<in>set ds. isdigit c" "rest = [] \<or> \<not> isdigit (hd rest)"
      unfolding match_directive_iff by blast
    have "c # cs = [] @ (flag @ ws1 @ ''='' @ ws2 @ ds) @ rest"
      using cs by simp
    moreover have "re_sub (c # cs) = [] @ re_sub rest"
      using m by simp
    moreover have "re_search [] = None" by simp
    ultimately show ?thesis using w by blast
  qed
qed

section \<open>Decimal numbers\<close>

text \<open>\<open>int\<close> reads back what \<open>str\<close> prints, so \<open>str\<close> is injective.\<close>

lemma digit_value_nonneg: "isdigit c \<Longrightarrow> 0 \<le> digit_value c"
  by (auto simp: isdigit_def digit_value_def)

lemma digits_value_nonneg_aux:
  "0 \<le> a \<Longrightarrow> \<forall>c\<in>set ds. isdigit c \<Longrightarrow> 0 \<le> foldl (\<lambda>a c. 10 * a + digit_value c) a ds"
proof (induction ds arbitrary: a)
  case Nil
  then show ?case by simp
next
  case (Cons d ds)
  have "0 \<le> digit_value d"
    using Cons.prems(2) by (simp add: digit_value_nonneg)
  then have "0 \<le> 10 * a + digit_value d"
    using Cons.prems(1) by simp
  then have "0 \<le> foldl (\<lambda>a c. 10 * a + digit_value c) (10 * a + digit_value d) ds"
    by (rule Cons.IH) (use Cons.prems(2) in simp)
  then show ?case by simp
qed











section \<open>Runs of the loops\<close>

lemma then_run_None [simp]: "then_run (es, None) k = (es @ fst k, snd k)"
  by (simp add: then_run_def)

lemma then_run_Some [simp]: "then_run (es, Some e) k = (es, Some e)"
  by (simp add: then_run_def)

lemma response_texts_append [simp]:
  "response_texts (xs @ ys) = response_texts xs @ response_texts ys"
  by (induction xs rule: response_texts.induct) simp_all

lemma attachments_append [simp]:
  "attachments (xs @ ys) = attachments xs @ attachments ys"
  by (induction xs rule: attachments.induct) simp_all

lemma generation_calls_append [simp]:
  "generation_calls (xs @ ys) = generation_calls xs @ generation_calls ys"
  by (induction xs rule: generation_calls.induct) simp_all

lemma generation_calls_publish_image:
  "generation_calls (fst (publish_image env request lm n i b)) = []"
  by (simp add: publish_image_def try_publish_def attach_fallback_def Let_def
      split: option.splits sum.splits)

lemma generation_calls_publish_images:
  "generation_calls (fst (publish_images env request lm n i imgs)) = []"
proof (induction imgs arbitrary: i)
  case Nil
  show ?case by simp
next
  case (Cons img imgs)
  show ?case
  proof (cases "pil_image img")
    case None
    with Cons show ?thesis by simp
  next
    case (Some saved)
    show ?thesis
    proof (cases saved)
      case (Inl e)
      with Some show ?thesis by simp
    next
      case (Inr b)
      obtain es x where p: "publish_image env request lm n i b = (es, x)"
        by (cases "publish_image env request lm n i b")
      have "generation_calls es = []"
        using generation_calls_publish_image [of env request lm n i b] by (simp add: p)
      with Some Inr p Cons show ?thesis
        by (cases x) simp_all
    qed
  qed
qed

lemma upt_shift: "[k..<k + Suc n] = k # [Suc k..<Suc k + n]"
  using upt_conv_Cons [of k "k + Suc n"] by simp


lemma publish_images_skipped:
  "\<forall>img\<in>set imgs. pil_image img = None \<Longrightarrow>
     publish_images env request lm n k imgs = ([], None)"
  by (induction imgs arbitrary: k) simp_all

lemma publish_images_fallback:
  assumes "\<forall>i<length imgs. pil_image (imgs ! i) = Some (Inr (bs ! i))"
    and "\<forall>i<length imgs. upload_from_file env (k + i) \<noteq> None
           \<or> (\<exists>e. generate_signed_url env (k + i) = Inl e)"
    and "\<forall>i<length imgs. post_message_attachment env (k + i) = None"
    and "length bs = length imgs"
  shows "snd (publish_images env request lm n k imgs) = None
    \<and> response_texts (fst (publish_images env request lm n k imgs)) =
        replicate (length imgs) (summary_text n lm)
    \<and> attachments (fst (publish_images env request lm n k imgs)) =
        map2 (\<lambda>i b. (b, image_filename lm i)) [k..<k + length imgs] bs"
  using assms
proof (induction imgs arbitrary: k bs)
  case Nil
  then show ?case by simp
next
  case (Cons img imgs)
  from Cons.prems(4) obtain b bs' where bs: "bs = b # bs'" and len: "length bs' = length imgs"
    by (cases bs) auto
  from Cons.prems(1) have b: "pil_image img = Some (Inr b)" by (fastforce simp: bs)
  from Cons.prems(2) have fail: "upload_from_file env k \<noteq> None
      \<or> (\<exists>e. generate_signed_url env k = Inl e)" by fastforce
  from Cons.prems(3) have post: "post_message_attachment env k = None" by fastforce
  have "\<exists>es. publish_image env request lm n k b = (es, None)
      \<and> response_texts es = [summary_text n lm]
      \<and> attachments es = [(b, image_filename lm k)]"
  proof (cases "upload_from_file env k")
    case (Some e)
    then show ?thesis
      by (simp add: publish_image_def try_publish_def attach_fallback_def Let_def post)
  next
    case None
    with fail obtain e where "generate_signed_url env k = Inl e" by blast
    with None show ?thesis
      by (simp add: publish_image_def try_publish_def attach_fallback_def Let_def post)
  qed
  then obtain es where one: "publish_image env request lm n k b = (es, None)"
    and r: "response_texts es = [summary_text n lm]"
    and a: "attachments es = [(b, image_filename lm k)]"
    by blast
  have 1: "\<forall>i<length imgs. pil_image (imgs ! i) = Some (Inr (bs' ! i))"
    using Cons.prems(1) by (fastforce simp: bs)
  have 2: "\<forall>i<length imgs. upload_from_file env (Suc k + i) \<noteq> None
           \<or> (\<exists>e. generate_signed_url env (Suc k + i) = Inl e)"
    using Cons.prems(2) by fastforce
  have 3: "\<forall>i<length imgs. post_message_attachment env (Suc k + i) = None"
    using Cons.prems(3) by fastforce
  note IH = Cons.IH [OF 1 2 3 len]
  have upt: "[k..<k + length (img # imgs)] = k # [Suc k..<Suc k + length imgs]"
    using upt_shift [of k "length imgs"] by simp
  show ?case
    unfolding upt bs using IH by (simp add: b one r a)
qed

lemma attach_images_all:
  assumes "\<forall>i<length imgs. pil_image (imgs ! i) = Some (Inr (bs ! i))"
    and "\<forall>i<length imgs. post_message_attachment env (k + i) = None"
    and "length bs = length imgs"
  shows "attach_images env request lm k imgs =
     (map2 (\<lambda>i b. PostMessageAttachment (message_id request) b (image_filename lm i))
        [k..<k + length imgs] bs, None)"
  using assms
proof (induction imgs arbitrary: k bs)
  case Nil
  then show ?case by simp
next
  case (Cons img imgs)
  from Cons.prems(3) obtain b bs' where bs: "bs = b # bs'" and len: "length bs' = length imgs"
    by (cases bs) auto
  from Cons.prems(1) have b: "pil_image img = Some (Inr b)" by (fastforce simp: bs)
  from Cons.prems(2) have post: "post_message_attachment env k = None" by fastforce
  have 1: "\<forall>i<length imgs. pil_image (imgs ! i) = Some (Inr (bs' ! i))"
    using Cons.prems(1) by (fastforce simp: bs)
  have 2: "\<forall>i<length imgs. post_message_attachment env (Suc k + i) = None"
    using Cons.prems(2) by fastforce
  note IH = Cons.IH [OF 1 2 len]
  have upt: "[k..<k + length (img # imgs)] = k # [Suc k..<Suc k + length imgs]"
    using upt_shift [of k "length imgs"] by simp
  show ?case
    unfolding upt bs using IH by (simp add: b post)
qed

lemma attach_images_skipped:
  "\<forall>img\<in>set imgs. pil_image img = None \<Longrightarrow>
     attach_images env request lm k imgs = ([], None)"
  by (induction imgs arbitrary: k) simp_all


section \<open>Runs of the handlers\<close>

lemma get_response_nonempty_prompt:
  assumes "query request \<noteq> []" and "content (last (query request)) = p" and "p \<noteq> []"
  shows "get_response_body env request = generate_and_publish env request p"
  using assms by (simp add: get_response_body_def last_message_content_def)

lemma get_response_out_gcp_nonempty_prompt:
  assumes "query request \<noteq> []" and "content (last (query request)) = p" and "p \<noteq> []"
  shows "get_response_body_out_gcp env request = generate_and_attach env request p"
  using assms by (simp add: get_response_body_out_gcp_def last_message_content_def)

lemma generation_calls_generate_and_publish:
  "generation_calls (fst (generate_and_publish env request p)) =
     (case parse_directive p of Inl e \<Rightarrow> [] | Inr x \<Rightarrow> [x])"
proof (cases "parse_directive p")
  case (Inl e)
  then show ?thesis by (simp add: generate_and_publish_def)
next
  case (Inr x)
  obtain lm n where "x = (lm, n)" by (cases x)
  with Inr show ?thesis
    by (simp add: generate_and_publish_def generation_calls_publish_images
        split: sum.splits)
qed

lemma generation_calls_get_response:
  assumes "query request \<noteq> []" and "content (last (query request)) = p" and "p \<noteq> []"
  shows "generation_calls (fst (get_response env request)) =
     (case parse_directive p of Inl e \<Rightarrow> [] | Inr x \<Rightarrow> [x])"
proof -
  obtain es x where b: "generate_and_publish env request p = (es, x)"
    by (cases "generate_and_publish env request p")
  have "generation_calls es = (case parse_directive p of Inl e \<Rightarrow> [] | Inr x \<Rightarrow> [x])"
    using generation_calls_generate_and_publish [of env request p] by (simp add: b)
  then show ?thesis
    using get_response_nonempty_prompt [OF assms, of env]
    by (simp add: get_response_def b split: option.splits exn.splits)
qed

lemma get_response_no_images:
  assumes "query request \<noteq> []" and "content (last (query request)) = p" and "p \<noteq> []"
    and "parse_directive p = Inr (lm, n)" and "generate_images env lm n = Inr []"
  shows "get_response env request = ([GenerateImages lm n, Yield no_images_text], None)"
  using get_response_nonempty_prompt [OF assms(1-3), of env] assms(4,5)
  by (simp add: get_response_def generate_and_publish_def)

lemma get_response_all_skipped:
  assumes "query request \<noteq> []" and "content (last (query request)) = p" and "p \<noteq> []"
    and "parse_directive p = Inr (lm, n)"
    and "generate_images env lm n = Inr images" and "images \<noteq> []"
    and "\<forall>img\<in>set images. pil_image img = None"
  shows "get_response env request = ([GenerateImages lm n], None)"
  using get_response_nonempty_prompt [OF assms(1-3), of env] assms(4-6)
    publish_images_skipped [OF assms(7), of env request lm n 0]
  by (simp add: get_response_def generate_and_publish_def)

lemma get_response_out_gcp_all_skipped:
  assumes "query request \<noteq> []" and "content (last (query request)) = p" and "p \<noteq> []"
    and "parse_directive p = Inr (lm, n)"
    and "generate_images env lm n = Inr images" and "images \<noteq> []"
    and "\<forall>img\<in>set images. pil_image img = None"
  shows "get_response_out_gcp env request =
           ([GenerateImages lm n, Yield (summary_text n lm)], None)"
  using get_response_out_gcp_nonempty_prompt [OF assms(1-3), of env] assms(4-6)
    attach_images_skipped [OF assms(7), of env request lm 0]
  by (simp add: get_response_out_gcp_def generate_and_attach_def)

lemma get_response_all_fallback:
  assumes "query request \<noteq> []" and "content (last (query request)) = p" and "p \<noteq> []"
    and "parse_directive p = Inr (lm, n)"
    and "generate_images env lm n = Inr images" and "images \<noteq> []"
    and "\<forall>i<length images. pil_image (images ! i) = Some (Inr (bs ! i))"
    and "\<forall>i<length images. upload_from_file env i \<noteq> None
           \<or> (\<exists>e. generate_signed_url env i = Inl e)"
    and "\<forall>i<length images. post_message_attachment env i = None"
    and "length bs = length images"
  shows "response_texts (fst (get_response env request)) =
           replicate (length images) (summary_text n lm)
         \<and> attachments (fst (get_response env request)) =
           map2 (\<lambda>i b. (b, image_filename lm i)) [0..<length images] bs"
proof -
  obtain es x where l: "publish_images env request lm n 0 images = (es, x)"
    by (cases "publish_images env request lm n 0 images")
  have "x = None
    \<and> response_texts es = replicate (length images) (summary_text n lm)
    \<and> attachments es = map2 (\<lambda>i b. (b, image_filename lm i)) [0..<0 + length images] bs"
    using publish_images_fallback [of images bs env 0 request lm n] assms(7-10)
    by (simp add: l)
  then have x: "x = None"
    and r: "response_texts es = replicate (length images) (summary_text n lm)"
    and a: "attachments es = map2 (\<lambda>i b. (b, image_filename lm i)) [0..<length images] bs"
    by simp_all
  have "get_response env request = (GenerateImages lm n # es, None)"
    using get_response_nonempty_prompt [OF assms(1-3), of env] assms(4-6)
    by (simp add: get_response_def generate_and_publish_def l x)
  then show ?thesis using r a by simp
qed

lemma get_response_out_gcp_all_attached:
  assumes "query request \<noteq> []" and "content (last (query request)) = p" and "p \<noteq> []"
    and "parse_directive p = Inr (lm, n)"
    and "generate_images env lm n = Inr images" and "images \<noteq> []"
    and "\<forall>i<length images. pil_image (images ! i) = Some (Inr (bs ! i))"
    and "\<forall>i<length images. post_message_attachment env i = None"
    and "length bs = length images"
  shows "get_response_out_gcp env request =
           (GenerateImages lm n
              # map2 (\<lambda>i b. PostMessageAttachment (message_id request) b (image_filename lm i))
                  [0..<length images] bs
              @ [Yield (summary_text n lm)], None)"
proof -
  have "attach_images env request lm 0 images =
     (map2 (\<lambda>i b. PostMessageAttachment (message_id request) b (image_filename lm i))
        [0..<length images] bs, None)"
    using attach_images_all [of images bs env 0 request lm] assms(7-9) by simp
  then show ?thesis
    using get_response_out_gcp_nonempty_prompt [OF assms(1-3), of env] assms(4-6)
    by (simp add: get_response_out_gcp_def generate_and_attach_def)
qed

lemma generate_and_publish_starts:
  assumes "parse_directive p = Inr (lm, n)"
  shows "\<exists>es. fst (generate_and_publish env request p) = GenerateImages lm n # es"
  using assms by (simp add: generate_and_publish_def split: sum.splits)

lemma get_response_starts:
  assumes "query request \<noteq> []" and "content (last (query request)) = p" and "p \<noteq> []"
    and "parse_directive p = Inr (lm, n)"
  shows "\<exists>es. fst (get_response env request) = GenerateImages lm n # es"
proof -
  obtain es x where b: "generate_and_publish env request p = (es, x)"
    by (cases "generate_and_publish env request p")
  obtain es' where "es = GenerateImages lm n # es'"
    using generate_and_publish_starts [OF assms(4), of env request] by (auto simp: b)
  then show ?thesis
    using get_response_nonempty_prompt [OF assms(1-3), of env]
    by (simp add: get_response_def b split: option.splits exn.splits)
qed

lemma generation_failure_reported:
  assumes "query request \<noteq> []" and "content (last (query request)) = p" and "p \<noteq> []"
    and "parse_directive p = Inr (lm, n)"
    and "generate_images env lm n = Inl (Exception msg)"
  shows "get_response env request =
           ([GenerateImages lm n, Yield (''Error: '' @ msg)], None)"
  using get_response_nonempty_prompt [OF assms(1-3), of env] assms(4,5)
  by (simp add: get_response_def generate_and_publish_def)

text \<open>
  Examples of the other faults that reach the outermost handler: the JPEG encoding of
  the second image raises after the first image was linked, and the posting of the
  attachment raises inside the fallback.
\<close>

lemma save_failure_example:
  "get_response
     (sample_env\<lparr>generate_images :=
        (\<lambda>p n. Inr [\<lparr>pil_image = Some (Inr [255, 216])\<rparr>,
                     \<lparr>pil_image = Some (Inl (Exception ''cannot write mode RGBA as JPEG''))\<rparr>])\<rparr>)
     (sample_request ''cat'') =
   ([GenerateImages ''cat'' 1,
     UploadFromFile ''key0.jpg'' [255, 216],
     GenerateSignedUrl ''key0.jpg'',
     Yield ''![Generated Image_cat_image_1.jpg](https://u/0)'',
     Yield ''Error: cannot write mode RGBA as JPEG''], None)"
  by (simp add: string_defs handler_defs sample_defs)

lemma attachment_failure_example:
  "get_response
     (env_upload_fails\<lparr>post_message_attachment := (\<lambda>i. Some (Exception ''timeout''))\<rparr>)
     (sample_request ''cat'') =
   ([GenerateImages ''cat'' 1,
     UploadFromFile ''key0.jpg'' [255, 216],
     PostMessageAttachment ''m1'' [255, 216] ''cat_image_1.jpg'',
     Yield ''Error: timeout''], None)"
  by (simp add: string_defs handler_defs sample_defs)

text \<open>
  The sibling handler on the two inputs below: one summary after both attachments, and
  one summary when the only image has no pixel data.
\<close>

lemma out_gcp_two_attachments_example:
  "get_response_out_gcp env_upload_fails (sample_request ''cat --number_of_images=2'') =
     ([GenerateImages ''cat'' 2,
       PostMessageAttachment ''m1'' [255, 216] ''cat_image_1.jpg'',
       PostMessageAttachment ''m1'' [255, 217] ''cat_image_2.jpg'',
       Yield (summary_text 2 ''cat'')], None)"
  by (simp add: string_defs handler_defs sample_defs)

lemma out_gcp_no_pixels_example:
  "get_response_out_gcp env_no_pixels (sample_request ''cat'') =
     ([GenerateImages ''cat'' 1, Yield (summary_text 1 ''cat'')], None)"
  by (simp add: string_defs handler_defs sample_defs)


section \<open>The limit of the integer conversion\<close>

lemma parse_directive_within_limit:
  assumes "re_search p = Some ds" and "length ds \<le> int_max_str_digits"
  shows "parse_directive p =
     Inr (strip (re_sub p),
          if digits_value ds \<le> 0 then 1 else if digits_value ds > 4 then 4 else digits_value ds)"
  using assms by (simp add: parse_directive_def int_of_digits_def Let_def)

lemma parse_directive_over_limit:
  assumes "re_search p = Some ds" and "length ds > int_max_str_digits"
  shows "parse_directive p = Inl (Exception (int_limit_text (length ds)))"
  using assms by (simp add: parse_directive_def int_of_digits_def)

lemma get_response_over_limit:
  assumes "query request \<noteq> []" and "content (last (query request)) = p"
    and "re_search p = Some ds" and "length ds > int_max_str_digits"
  shows "get_response env request =
           ([Yield (''Error: '' @ int_limit_text (length ds))], None)"
proof -
  from assms(3) have "p \<noteq> []" by auto
  from get_response_nonempty_prompt [OF assms(1,2) this, of env]
    parse_directive_over_limit [OF assms(3,4)]
  show ?thesis by (simp add: get_response_def generate_and_publish_def)
qed

lemma re_search_directive_at_start:
  assumes "ds \<noteq> []" and "\<forall>c\<in>set ds. isdigit c"
  shows "re_search (flag @ ''='' @ ds) = Some ds"
proof -
  have "match_directive (flag @ ''='' @ ds) = Some (ds, [])"
    unfolding match_directive_iff
    by (rule exI [of _ "[]"], rule exI [of _ "[]"]) (use assms in simp)
  moreover obtain c cs where "flag @ ''='' @ ds = c # cs"
    by (cases "flag @ ''='' @ ds") (simp_all add: flag_def)
  ultimately show ?thesis by simp
qed

lemma over_limit_example:
  "parse_directive (flag @ ''='' @ replicate 4301 (CHR ''0'')) =
     Inl (Exception (int_limit_text 4301))"
proof -
  define ds where "ds = replicate 4301 (CHR ''0'')"
  have l: "length ds = 4301" by (simp add: ds_def)
  have "ds \<noteq> []" using l by auto
  moreover have "\<forall>c\<in>set ds. isdigit c" by (simp add: ds_def isdigit_def)
  ultimately have "re_search (flag @ ''='' @ ds) = Some ds"
    by (rule re_search_directive_at_start)
  moreover have "length ds > int_max_str_digits" by (simp add: l int_max_str_digits_def)
  ultimately have "parse_directive (flag @ ''='' @ ds) = Inl (Exception (int_limit_text (length ds)))"
    by (rule parse_directive_over_limit)
  then show ?thesis by (simp only: l) (simp only: ds_def)
qed

section \<open>Where the exceptions of the body come from\<close>

text \<open>
  An exception that ends the body is the indexing error of the empty list of turns, the
  error of the integer conversion, or what the generation call, the JPEG encoding of an
  image or the posting of an attachment raised. What the upload and the signing raise
  never ends the body.
\<close>

lemma publish_image_raises:
  assumes "snd (publish_image env request lm n i b) = Some e"
  shows "post_message_attachment env i = Some e"
proof (cases "post_message_attachment env i")
  case None
  then have "snd (publish_image env request lm n i b) = None"
    by (simp add: publish_image_def try_publish_def attach_fallback_def Let_def
        split: option.splits sum.splits)
  with assms show ?thesis by simp
next
  case (Some e')
  then have "snd (publish_image env request lm n i b) = None
      \<or> snd (publish_image env request lm n i b) = Some e'"
    by (simp add: publish_image_def try_publish_def attach_fallback_def Let_def
        split: option.splits sum.splits)
  with assms Some show ?thesis by auto
qed

lemma publish_images_raises:
  "snd (publish_images env request lm n k imgs) = Some e \<Longrightarrow>
     (\<exists>img\<in>set imgs. pil_image img = Some (Inl e))
     \<or> (\<exists>i. post_message_attachment env i = Some e)"
proof (induction imgs arbitrary: k)
  case Nil
  then show ?case by simp
next
  case (Cons img imgs)
  show ?case
  proof (cases "pil_image img")
    case None
    with Cons.prems have "snd (publish_images env request lm n (Suc k) imgs) = Some e"
      by simp
    from Cons.IH [OF this] show ?thesis by auto
  next
    case (Some saved)
    show ?thesis
    proof (cases saved)
      case (Inl e')
      with Some Cons.prems have "e' = e" by simp
      with Some Inl show ?thesis by auto
    next
      case (Inr b)
      obtain es x where p: "publish_image env request lm n k b = (es, x)"
        by (cases "publish_image env request lm n k b")
      show ?thesis
      proof (cases x)
        case None
        with Some Inr p Cons.prems
        have "snd (publish_images env request lm n (Suc k) imgs) = Some e" by simp
        from Cons.IH [OF this] show ?thesis by auto
      next
        case (Some e')
        with \<open>pil_image img = Some saved\<close> Inr p Cons.prems have "e' = e" by simp
        with Some p have "snd (publish_image env request lm n k b) = Some e" by simp
        then have "post_message_attachment env k = Some e" by (rule publish_image_raises)
        then show ?thesis by blast
      qed
    qed
  qed
qed

lemma generate_and_publish_raises:
  assumes "snd (generate_and_publish env request p) = Some e"
  shows "(\<exists>k. e = Exception (int_limit_text k))
     \<or> (\<exists>lm n. generate_images env lm n = Inl e)
     \<or> (\<exists>lm n images img. generate_images env lm n = Inr images \<and> img \<in> set images
            \<and> pil_image img = Some (Inl e))
     \<or> (\<exists>i. post_message_attachment env i = Some e)"
proof (cases "parse_directive p")
  case (Inl e')
  with assms have "e' = e" by (simp add: generate_and_publish_def)
  with Inl have "\<exists>k. e = Exception (int_limit_text k)"
    by (auto simp: parse_directive_def int_of_digits_def split: option.splits if_splits)
  then show ?thesis by blast
next
  case (Inr x)
  obtain lm n where x: "x = (lm, n)" by (cases x)
  show ?thesis
  proof (cases "generate_images env lm n")
    case (Inl e')
    with assms Inr x have "e' = e" by (simp add: generate_and_publish_def)
    with Inl show ?thesis by blast
  next
    case images: (Inr images)
    show ?thesis
    proof (cases "images = []")
      case True
      with assms Inr x images show ?thesis by (simp add: generate_and_publish_def)
    next
      case False
      with assms Inr x images
      have "snd (publish_images env request lm n 0 images) = Some e"
        by (simp add: generate_and_publish_def)
      from publish_images_raises [OF this] images show ?thesis by blast
    qed
  qed
qed

lemma get_response_body_raises:
  assumes "snd (get_response_body env request) = Some e"
  shows "e = Exception ''list index out of range''
     \<or> (\<exists>k. e = Exception (int_limit_text k))
     \<or> (\<exists>lm n. generate_images env lm n = Inl e)
     \<or> (\<exists>lm n images img. generate_images env lm n = Inr images \<and> img \<in> set images
            \<and> pil_image img = Some (Inl e))
     \<or> (\<exists>i. post_message_attachment env i = Some e)"
proof (cases "query request = []")
  case True
  with assms show ?thesis
    by (simp add: get_response_body_def last_message_content_def)
next
  case False
  show ?thesis
  proof (cases "content (last (query request)) = []")
    case True
    with False assms show ?thesis
      by (simp add: get_response_body_def last_message_content_def)
  next
    case nonempty: False
    with False assms
    have "snd (generate_and_publish env request (content (last (query request)))) = Some e"
      by (simp add: get_response_body_def last_message_content_def)
    from generate_and_publish_raises [OF this] show ?thesis by blast
  qed
qed

section \<open>Parsing the cleaned prompt again\<close>












lemma separated_two_directives_example:
  "separated ''a --number_of_images=3 b --number_of_images = 2 c''"
proof -
  have r: "separated '' c''" by (rule separated.plain) simp
  have r': "separated ('' b '' @ flag @ '' '' @ ''='' @ '' '' @ ''2'' @ '' c'')"
    by (rule separated.directive [OF _ _ _ _ _ r])
      (simp_all add: isdigit_def isspace_def whitespace_def)
  have "separated (''a '' @ flag @ [] @ ''='' @ [] @ ''3''
      @ ('' b '' @ flag @ '' '' @ ''='' @ '' '' @ ''2'' @ '' c''))"
    by (rule separated.directive [OF _ _ _ _ _ r']) (simp_all add: isdigit_def)
  then show ?thesis by (simp add: flag_def)
qed

lemma two_directives_example:
  "parse_directive ''a --number_of_images=3 b --number_of_images = 2 c'' = Inr (''a  b  c'', 3)
   \<and> parse_directive ''a  b  c'' = Inr (''a  b  c'', 1)"
  by (simp add: string_defs)

lemma reparse_unchanged_iff:
  "parse_directive q = Inr (q, 1) \<longleftrightarrow> re_search q = None"
proof (cases "re_search q")
  case None
  then show ?thesis by (simp add: parse_directive_def)
next
  case (Some ds)
  have "length (strip (re_sub q)) \<le> length (re_sub q)" by (rule strip_length)
  with re_sub_length_match [OF Some] have "strip (re_sub q) \<noteq> q" by auto
  with Some show ?thesis by (simp add: parse_directive_def Let_def split: sum.splits)
qed

section \<open>Examples\<close>

lemma summary_text_example:
  "summary_text 2 ''cat'' =
     ''2 image(s) generated by Imagen3 attached for '' @ [CHR 0x22] @ ''cat'' @ [CHR 0x22] @ ''.''"
  by (simp add: summary_text_def str_int_def str_nat.simps)

lemma directive_zero_example:
  "parse_directive ''--number_of_images = 0 a dog'' = Inr (''a dog'', 1)"
  by (simp add: string_defs)

section \<open>The claims\<close>

subsection \<open>C1\<close>

text \<open>
  C1: when the remote publish fails for all N images of a batch, the pipeline delivers
  exactly N attachments and then emits exactly one summary text after all of them.

  The handler of GCS/imagen\_bot\_poe.py does not do that. Its \<open>yield\<close> of the summary
  stands inside the \<open>except\<close> block of the loop body, so the summary follows every
  attachment: for the prompt \<open>cat --number_of_images=2\<close>, two images and a storage
  that refuses both uploads, the run is upload, attachment 1, summary, upload,
  attachment 2, summary. (\<open>get_response_all_fallback\<close> gives the N summaries for every
  N; \<open>get_response_out_gcp_all_attached\<close> shows the sibling handler yielding the summary
  once, after the N attachments.)
\<close>

theorem publish_fails_summary_after_each_attachment:
  "get_response env_upload_fails (sample_request ''cat --number_of_images=2'') =
     ([GenerateImages ''cat'' 2,
       UploadFromFile ''key0.jpg'' [255, 216],
       PostMessageAttachment ''m1'' [255, 216] ''cat_image_1.jpg'',
       Yield (summary_text 2 ''cat''),
       UploadFromFile ''key1.jpg'' [255, 217],
       PostMessageAttachment ''m1'' [255, 217] ''cat_image_2.jpg'',
       Yield (summary_text 2 ''cat'')], None)"
  by (simp add: string_defs handler_defs sample_defs)

subsection \<open>C2\<close>

text \<open>
  C2: a batch with zero usable images (the generation returns an empty sequence, or
  every returned image lacks pixel data and is skipped) gives exactly one terminal text
  response and no attachment or link.

  For the empty sequence this is \<open>get_response_no_images\<close>. When every image is
  skipped, the handler of GCS/imagen\_bot\_poe.py yields nothing at all
  (\<open>get_response_all_skipped\<close>): for the prompt \<open>cat\<close> and one image without pixel
  data the run is the generation call alone. The sibling handler yields its summary in
  that case (\<open>get_response_out_gcp_all_skipped\<close>).
\<close>

theorem all_images_skipped_no_response:
  "get_response env_no_pixels (sample_request ''cat'') = ([GenerateImages ''cat'' 1], None)
   \<and> response_texts (fst (get_response env_no_pixels (sample_request ''cat''))) = []"
  by (simp add: string_defs handler_defs sample_defs)

subsection \<open>C3\<close>

text \<open>
  C3, as amended: for every prompt without a count directive (the search of the pattern
  finds nothing) the parser yields count 1 and the prompt itself, unchanged:
  \<open>strip()\<close> is applied only together with the removal of a directive, so whitespace
  around such a prompt stays.
\<close>

theorem no_directive_prompt_unchanged:
  "re_search p = None \<Longrightarrow> parse_directive p = Inr (p, 1)"
  by (simp add: parse_directive_def)

theorem no_directive_prompt_unchanged_witness:
  "re_search ''a cat in space'' = None
   \<and> parse_directive ''a cat in space'' = Inr (''a cat in space'', 1)"
  using no_directive_prompt_unchanged [of "''a cat in space''"] by (simp add: string_defs)

text \<open>
  The prompt \<open>cat\<close> with a blank on either side has no directive and is not empty; the
  parser returns it with both blanks, which is not the trimmed prompt.
\<close>

theorem no_directive_not_trimmed_counterexample:
  "'' cat '' \<noteq> [] \<and> re_search '' cat '' = None
   \<and> parse_directive '' cat '' = Inr ('' cat '', 1)
   \<and> '' cat '' \<noteq> strip '' cat ''"
  by (simp add: string_defs)

subsection \<open>C4\<close>

text \<open>
  C4, as amended: for every prompt containing a count directive, with \<open>n\<close> the integer
  value of the leftmost one. When the digits of that directive are at most 4300, the
  limit of \<open>int()\<close>: if \<open>n \<le> 0\<close> the count is 1, if \<open>1 \<le> n \<le> 4\<close> the count is \<open>n\<close>, if
  \<open>n > 4\<close> the count is 4; the directive is cut out of the prompt where it stands, so
  that the cleaned prompt is the text before it, which holds no directive, followed by
  the text after it with its own directives removed by the same scan, the whole
  trimmed, and is shorter than the prompt by the 20 characters of a directive at least.
  The text joined by a cut is not scanned again, so a directive can appear in the
  cleaned prompt. When the digits are more than 4300, \<open>int()\<close> raises and the parser
  yields neither a count nor a cleaned prompt (the handler answers with the error text
  and calls no generation: \<open>get_response_over_limit\<close>). The prompt
  \<open>a cat --number_of_images=7 in space\<close> yields the cleaned prompt \<open>a cat  in space\<close>
  and count 4.
\<close>

theorem directive_clamped_and_cut:
  assumes "re_search p = Some ds"
  shows "(length ds \<le> int_max_str_digits \<longrightarrow>
           (\<exists>q count. parse_directive p = Inr (q, count)
              \<and> (digits_value ds \<le> 0 \<longrightarrow> count = 1)
              \<and> (1 \<le> digits_value ds \<and> digits_value ds \<le> 4 \<longrightarrow> count = digits_value ds)
              \<and> (digits_value ds > 4 \<longrightarrow> count = 4)
              \<and> (\<exists>pre ws1 ws2 rest.
                   p = pre @ (flag @ ws1 @ ''='' @ ws2 @ ds) @ rest
                   \<and> (\<forall>c\<in>set ws1. isspace c) \<and> (\<forall>c\<in>set ws2. isspace c)
                   \<and> re_search pre = None
                   \<and> q = strip (pre @ re_sub rest))
              \<and> length q + 20 \<le> length p))
     \<and> (length ds > int_max_str_digits \<longrightarrow>
           parse_directive p = Inl (Exception (int_limit_text (length ds))))"
proof (intro conjI impI)
  assume "length ds > int_max_str_digits"
  with assms show "parse_directive p = Inl (Exception (int_limit_text (length ds)))"
    by (rule parse_directive_over_limit)
next
  assume l: "length ds \<le> int_max_str_digits"
  define count where "count =
    (if digits_value ds \<le> 0 then 1 else if digits_value ds > 4 then 4 else digits_value ds)"
  have pd: "parse_directive p = Inr (strip (re_sub p), count)"
    unfolding count_def by (rule parse_directive_within_limit [OF assms l])
  from re_search_first_match [OF assms] obtain pre ws1 ws2 rest where
    "p = pre @ (flag @ ws1 @ ''='' @ ws2 @ ds) @ rest"
    "\<forall>c\<in>set ws1. isspace c" "\<forall>c\<in>set ws2. isspace c"
    "re_search pre = None" "re_sub p = pre @ re_sub rest"
    by blast
  then have cut: "\<exists>pre ws1 ws2 rest.
          p = pre @ (flag @ ws1 @ ''='' @ ws2 @ ds) @ rest
          \<and> (\<forall>c\<in>set ws1. isspace c) \<and> (\<forall>c\<in>set ws2. isspace c)
          \<and> re_search pre = None
          \<and> strip (re_sub p) = strip (pre @ re_sub rest)"
    by metis
  have "length (strip (re_sub p)) \<le> length (re_sub p)" by (rule strip_length)
  with re_sub_length_match [OF assms] have len: "length (strip (re_sub p)) + 20 \<le> length p"
    by simp
  have c1: "digits_value ds \<le> 0 \<longrightarrow> count = 1"
    and c2: "1 \<le> digits_value ds \<and> digits_value ds \<le> 4 \<longrightarrow> count = digits_value ds"
    and c3: "digits_value ds > 4 \<longrightarrow> count = 4"
    by (simp_all add: count_def)
  from pd c1 c2 c3 cut len
  show "\<exists>q count. parse_directive p = Inr (q, count)
              \<and> (digits_value ds \<le> 0 \<longrightarrow> count = 1)
              \<and> (1 \<le> digits_value ds \<and> digits_value ds \<le> 4 \<longrightarrow> count = digits_value ds)
              \<and> (digits_value ds > 4 \<longrightarrow> count = 4)
              \<and> (\<exists>pre ws1 ws2 rest.
                   p = pre @ (flag @ ws1 @ ''='' @ ws2 @ ds) @ rest
                   \<and> (\<forall>c\<in>set ws1. isspace c) \<and> (\<forall>c\<in>set ws2. isspace c)
                   \<and> re_search pre = None
                   \<and> q = strip (pre @ re_sub rest))
              \<and> length q + 20 \<le> length p"
    by blast
qed

theorem directive_clamped_and_cut_witness:
  "re_search ''a cat --number_of_images=7 in space'' = Some ''7''
   \<and> length ''7'' \<le> int_max_str_digits
   \<and> digits_value ''7'' > 4
   \<and> parse_directive ''a cat --number_of_images=7 in space'' = Inr (''a cat  in space'', 4)"
  using directive_clamped_and_cut [of "''a cat --number_of_images=7 in space''" "''7''"]
  by (simp add: string_defs)

text \<open>
  Cutting the directive with value 1 out of the first prompt below joins the text
  around it into a directive with value 2, which is the cleaned prompt. The second
  prompt is a directive of 4301 digits: the conversion raises, and there is no count.
\<close>

theorem directive_in_cleaned_prompt_counterexample:
  "re_search ''--number_of_--number_of_images=1images=2'' = Some ''1''
   \<and> parse_directive ''--number_of_--number_of_images=1images=2''
       = Inr (''--number_of_images=2'', 1)
   \<and> re_search ''--number_of_images=2'' = Some ''2''
   \<and> parse_directive (''--number_of_images='' @ replicate 4301 (CHR ''0''))
       = Inl (Exception (int_limit_text 4301))"
proof -
  have "''--number_of_images='' @ replicate 4301 (CHR ''0'')
      = flag @ ''='' @ replicate 4301 (CHR ''0'')"
    by (simp add: flag_def)
  then have "parse_directive (''--number_of_images='' @ replicate 4301 (CHR ''0''))
      = Inl (Exception (int_limit_text 4301))"
    by (simp only: over_limit_example)
  moreover have "re_search ''--number_of_--number_of_images=1images=2'' = Some ''1''
   \<and> parse_directive ''--number_of_--number_of_images=1images=2''
       = Inr (''--number_of_images=2'', 1)
   \<and> re_search ''--number_of_images=2'' = Some ''2''"
    by (simp add: string_defs)
  ultimately show ?thesis by blast
qed

subsection \<open>C5\<close>




subsection \<open>C6\<close>

text \<open>
  C6, as amended: for every request, in a run where the transport takes every
  response, an exception of the class \<open>Exception\<close> that a stage raises and no earlier
  stage handles is caught by the outermost handler and
  becomes exactly one text response \<open>Error: \<close> followed by its message, yielded last.
  When the generation call, the JPEG encoding and the posting of the attachment raise
  nothing outside that class, no exception leaves the handler (the indexing error and
  the conversion error are of the class; what the upload and the signing raise is
  caught by the bare \<open>except\<close> of the loop). An exception outside the class raised by one
  of those three calls leaves the handler, and no error text is yielded.
\<close>

theorem outermost_handler_catches:
  assumes "\<forall>lm n e. generate_images env lm n = Inl e \<longrightarrow> catchable e"
    and "\<forall>lm n images img e. generate_images env lm n = Inr images \<longrightarrow> img \<in> set images
           \<longrightarrow> pil_image img = Some (Inl e) \<longrightarrow> catchable e"
    and "\<forall>i e. post_message_attachment env i = Some e \<longrightarrow> catchable e"
  shows "snd (get_response env request) = None
     \<and> (\<forall>es e. get_response_body env request = (es, Some e) \<longrightarrow>
          (\<exists>msg. e = Exception msg
             \<and> get_response env request = (es @ [Yield (''Error: '' @ msg)], None)))
     \<and> (\<forall>es. get_response_body env request = (es, None) \<longrightarrow>
          get_response env request = (es, None))"
proof -
  have c: "catchable e" if "snd (get_response_body env request) = Some e" for e
    using get_response_body_raises [OF that] assms by auto
  obtain es x where b: "get_response_body env request = (es, x)"
    by (cases "get_response_body env request")
  show ?thesis
  proof (cases x)
    case None
    with b show ?thesis by (simp add: get_response_def)
  next
    case (Some e)
    with b c have "catchable e" by simp
    then obtain msg where "e = Exception msg" by (cases e) simp_all
    with b Some show ?thesis by (simp add: get_response_def)
  qed
qed

theorem outermost_handler_catches_witness:
  "generate_images env_generation_fails ''cat'' 1 = Inl (Exception ''429 Quota exceeded'')
   \<and> catchable (Exception ''429 Quota exceeded'')
   \<and> get_response_body env_generation_fails (sample_request ''cat'')
     = ([GenerateImages ''cat'' 1], Some (Exception ''429 Quota exceeded''))
   \<and> get_response env_generation_fails (sample_request ''cat'')
     = ([GenerateImages ''cat'' 1, Yield ''Error: 429 Quota exceeded''], None)"
  using outermost_handler_catches [of env_generation_fails "sample_request ''cat''"]
  by (simp add: string_defs handler_defs sample_defs)

text \<open>
  Every upload is refused and the task is cancelled while the attachment of the first
  image is posted: the cancellation is no \<open>Exception\<close> and leaves the handler.
\<close>

theorem base_exception_leaves_handler_counterexample:
  "get_response env_attachment_cancelled (sample_request ''cat'') =
     ([GenerateImages ''cat'' 1,
       UploadFromFile ''key0.jpg'' [255, 216],
       PostMessageAttachment ''m1'' [255, 216] ''cat_image_1.jpg''],
      Some (BaseException ''CancelledError''))"
  by (simp add: string_defs handler_defs sample_defs)

subsection \<open>C7\<close>

text \<open>
  C7: for every request whose last message is the empty string, the only response is
  the text \<open>Prompt is required\<close>, and the generation capability is not called.
\<close>

theorem empty_prompt_is_refused:
  assumes "query request \<noteq> []" and "content (last (query request)) = []"
  shows "get_response env request = ([Yield ''Prompt is required''], None)
     \<and> response_texts (fst (get_response env request)) = [''Prompt is required'']
     \<and> generation_calls (fst (get_response env request)) = []"
  using assms by (simp add: get_response_def get_response_body_def last_message_content_def)

theorem empty_prompt_is_refused_witness:
  "query (sample_request []) \<noteq> [] \<and> content (last (query (sample_request []))) = []
   \<and> get_response sample_env (sample_request []) = ([Yield ''Prompt is required''], None)"
  using empty_prompt_is_refused [of "sample_request []" sample_env]
  by (simp add: sample_request_def)

subsection \<open>C8\<close>




subsection \<open>C9\<close>

text \<open>
  C9: for every request with an empty list of chat turns, reading the last turn raises
  the indexing error, which the outermost handler catches: the only response is the
  text \<open>Error: list index out of range\<close>, not \<open>Prompt is required\<close>, and the
  generation capability is not called.
\<close>

theorem empty_query_is_an_error:
  assumes "query request = []"
  shows "get_response env request = ([Yield ''Error: list index out of range''], None)
     \<and> response_texts (fst (get_response env request)) = [''Error: list index out of range'']
     \<and> generation_calls (fst (get_response env request)) = []"
  using assms by (simp add: get_response_def get_response_body_def last_message_content_def)

theorem empty_query_is_an_error_witness:
  "query \<lparr>query = [], message_id = ''m1''\<rparr> = []
   \<and> get_response sample_env \<lparr>query = [], message_id = ''m1''\<rparr>
       = ([Yield ''Error: list index out of range''], None)"
  using empty_query_is_an_error [of "\<lparr>query = [], message_id = ''m1''\<rparr>" sample_env]
  by simp

subsection \<open>C10\<close>

text \<open>
  C10: for every prompt that is not empty and consists of whitespace only, the
  short-circuit for the empty prompt is not taken: the run starts with the call of the
  generation capability, with that prompt as it is and count 1, and that is its only
  call.
\<close>

theorem whitespace_prompt_is_generated:
  assumes "query request \<noteq> []" and "content (last (query request)) = p"
    and "p \<noteq> []" and "\<forall>c\<in>set p. isspace c"
  shows "(\<exists>es. fst (get_response env request) = GenerateImages p 1 # es)
     \<and> generation_calls (fst (get_response env request)) = [(p, 1)]"
proof -
  have pd: "parse_directive p = Inr (p, 1)"
    using re_search_spaces [OF assms(4)] by (simp add: parse_directive_def)
  with generation_calls_get_response [OF assms(1-3), of env]
    get_response_starts [OF assms(1-3) pd, of env]
  show ?thesis by simp
qed

theorem whitespace_prompt_is_generated_witness:
  "query (sample_request ''  '') \<noteq> []
   \<and> content (last (query (sample_request ''  ''))) = ''  ''
   \<and> ''  '' \<noteq> [] \<and> isspace (CHR '' '')
   \<and> generation_calls (fst (get_response sample_env (sample_request ''  ''))) = [(''  '', 1)]"
  using whitespace_prompt_is_generated [of "sample_request ''  ''" "''  ''" sample_env]
  by (simp add: sample_request_def isspace_def whitespace_def)

end
